theory Spec2Isabelle
  imports Complex_Main
begin

section \<open>Python strings used by the loader\<close>

text \<open>
  A Python \<open>str\<close> is modelled as a \<open>string\<close>, one \<open>char\<close> per code point below 256.
  \<open>str.isspace\<close> holds on these code points for TAB, LF, VT, FF, CR, the four separators
  FS, GS, RS, US, the blank, NEL (0x85) and the no-break space (0xA0).
\<close>

definition isspace :: "char \<Rightarrow> bool" where
  "isspace c = (of_char c \<in> set [9, 10, 11, 12, 13, 28, 29, 30, 31, 32, 133, 160 :: nat])"

text \<open>\<open>s.strip()\<close>: the string without its leading and trailing whitespace.\<close>

definition strip :: "string \<Rightarrow> string" where
  "strip s = rev (dropWhile isspace (rev (dropWhile isspace s)))"

text \<open>
  \<open>s.split()\<close>: the maximal runs of non-whitespace characters, in order. \<open>cur\<close> is the
  token being read, reversed.
\<close>

fun split_from :: "string \<Rightarrow> string \<Rightarrow> string list" where
  "split_from cur [] = (if cur = [] then [] else [rev cur])"
| "split_from cur (c # cs) =
     (if isspace c
      then (if cur = [] then split_from [] cs else rev cur # split_from [] cs)
      else split_from (c # cur) cs)"

definition split :: "string \<Rightarrow> string list" where
  "split s = split_from [] s"

text \<open>\<open>' '.join(parts)\<close>.\<close>

fun join_sp :: "string list \<Rightarrow> string" where
  "join_sp [] = []"
| "join_sp [p] = p"
| "join_sp (p # q # ps) = p @ CHR '' '' # join_sp (q # ps)"

section \<open>Files\<close>

text \<open>
  A text file is the list of its lines, each as \<open>readline\<close> returns it (with its line
  terminator). An open file is this list and the number of lines already read.
  \<open>f.readline()\<close> returns the next line, and the empty string at the end of the file,
  however often it is called; \<open>f.readlines()\<close> returns all the lines not read yet.
\<close>

record filehandle =
  content :: "string list"
  pos :: nat

definition readline :: "filehandle \<Rightarrow> string \<times> filehandle" where
  "readline f =
     (if pos f < length (content f)
      then (content f ! pos f, f\<lparr>pos := Suc (pos f)\<rparr>)
      else ([], f))"

definition readlines :: "filehandle \<Rightarrow> string list \<times> filehandle" where
  "readlines f = (drop (pos f) (content f), f\<lparr>pos := length (content f)\<rparr>)"

text \<open>
  The header loop of \<open>_read_data\<close> (lines 220-221):
  \<^verbatim>\<open>while line.strip() != '#START': line=f.readline()\<close>
  The loop has no other exit, so it is a partial function: \<open>None\<close> is the loop that never
  ends, \<open>Some f\<close> the file handle when it ends.
\<close>

partial_function (option) skip_header :: "string \<Rightarrow> filehandle \<Rightarrow> filehandle option" where
  "skip_header line f =
     (if strip line \<noteq> ''#START''
      then skip_header (fst (readline f)) (snd (readline f))
      else Some f)"

text \<open>
  Lines 213-227 of \<open>_read_data\<close>: read the first line, run the header loop, then slurp
  the remaining lines. The result is the list \<open>lines\<close> of the source.
\<close>

definition lines_after_start :: "string list \<Rightarrow> string list option" where
  "lines_after_start c =
     (let f = \<lparr>content = c, pos = 0\<rparr>;
          (line, f1) = readline f
      in case skip_header line f1 of
           None \<Rightarrow> None
         | Some f2 \<Rightarrow> Some (fst (readlines f2)))"

section \<open>The dataset\<close>

text \<open>
  The exceptions the loader and the calculations can raise. \<open>open\<close> on a missing file
  raises an \<open>IOError\<close>; a failed \<open>strptime\<close> or \<open>float\<close> conversion and a broadcast of
  arrays of different shapes raise \<open>ValueError\<close>.
\<close>

datatype error = TypeError | IOError | ValueError | KeyError string | IndexError

text \<open>
  The values a caller can pass to the constructor as \<open>filename\<close>.
\<close>

datatype pyval = PyStr string | PyBytes string | PyInt int | PyNone | PyList "pyval list"

text \<open>
  A numpy array is either a vector of floats (\<open>np.zeros(n)\<close>) or a vector of Python
  objects (\<open>np.zeros(n, dtype='object')\<close>, which holds the integer 0 in every slot until
  an object is stored). The type \<open>'t\<close> is that of \<open>datetime\<close> objects. Floats are
  modelled as real numbers: rounding, infinities, NaN and the sign of zero are not part of
  the model.
\<close>

datatype 't pyobj = ObjInt int | ObjStr string | ObjTime 't

datatype 't ndarray = Floats "real list" | Objects "'t pyobj list"

text \<open>
  \<open>class ImfData(dict)\<close>: the dictionary itself and the attribute \<open>self.file\<close>
  (the field \<open>self_file\<close>).
\<close>

record 't ImfData =
  items :: "string \<rightharpoonup> 't ndarray"
  self_file :: pyval

definition setitem :: "'t ImfData \<Rightarrow> string \<Rightarrow> 't ndarray \<Rightarrow> 't ImfData" where
  "setitem self k a = self\<lparr>items := (items self)(k \<mapsto> a)\<rparr>"

definition getitem :: "'t ImfData \<Rightarrow> string \<Rightarrow> error + 't ndarray" where
  "getitem self k = (case items self k of None \<Rightarrow> Inl (KeyError k) | Some a \<Rightarrow> Inr a)"

text \<open>Sequencing of computations that may raise.\<close>

definition bnd :: "error + 'a \<Rightarrow> ('a \<Rightarrow> error + 'b) \<Rightarrow> error + 'b" where
  "bnd m f = (case m of Inl e \<Rightarrow> Inl e | Inr x \<Rightarrow> f x)"

section \<open>The loader\<close>

definition np_zeros :: "nat \<Rightarrow> 't ndarray" where
  "np_zeros n = Floats (replicate n 0)"

definition np_zeros_object :: "nat \<Rightarrow> 't ndarray" where
  "np_zeros_object n = Objects (replicate n (ObjInt 0))"

definition keys :: "string list" where
  "keys = [''bx'', ''by'', ''bz'', ''vx'', ''vy'', ''vz'', ''rho'', ''temp'']"

text \<open>Lines 244-248: the array of times, then one array of floats for each key.\<close>

definition alloc_arrays :: "nat \<Rightarrow> 't ImfData \<Rightarrow> 't ImfData" where
  "alloc_arrays nLines self =
     fold (\<lambda>k s. setitem s k (np_zeros nLines)) keys
       (setitem self ''time'' (np_zeros_object nLines))"

text \<open>
  Line 267, \<open>self['time'][i] = t\<close>, for a datetime \<open>t\<close>. The loader reaches it with the
  object array of line 244 under \<open>'time'\<close> and \<open>i\<close> in range; the other branches are what
  numpy does otherwise.
\<close>

definition set_time :: "'t ImfData \<Rightarrow> nat \<Rightarrow> 't \<Rightarrow> error + 't ImfData" where
  "set_time self i t =
     (case items self ''time'' of
        None \<Rightarrow> Inl (KeyError ''time'')
      | Some (Objects os) \<Rightarrow>
          if i < length os then Inr (setitem self ''time'' (Objects (os[i := ObjTime t])))
          else Inl IndexError
      | Some (Floats xs) \<Rightarrow> if i < length xs then Inl TypeError else Inl IndexError)"

text \<open>
  Line 272, \<open>self[k][i] = p\<close>, for a token \<open>p\<close> of the line: a float array converts the
  string with \<open>float\<close> (the parameter \<open>to_float\<close>, \<open>None\<close> where \<open>float\<close> raises
  \<open>ValueError\<close>), an object array stores the string itself.
\<close>

definition set_float ::
  "(string \<Rightarrow> real option) \<Rightarrow> 't ImfData \<Rightarrow> string \<Rightarrow> nat \<Rightarrow> string \<Rightarrow> error + 't ImfData" where
  "set_float to_float self k i p =
     (case items self k of
        None \<Rightarrow> Inl (KeyError k)
      | Some (Floats xs) \<Rightarrow>
          if i < length xs
          then (case to_float p of
                  None \<Rightarrow> Inl ValueError
                | Some x \<Rightarrow> Inr (setitem self k (Floats (xs[i := x]))))
          else Inl IndexError
      | Some (Objects os) \<Rightarrow>
          if i < length os then Inr (setitem self k (Objects (os[i := ObjStr p])))
          else Inl IndexError)"

text \<open>
  Lines 271-272, \<open>for k, p in zip(keys, parts[7:]): self[k][i]=p\<close>. An exception leaves
  the object as it is at that moment, so the loop returns the error with the state.
\<close>

fun assign_fields ::
  "(string \<Rightarrow> real option) \<Rightarrow> nat \<Rightarrow> (string \<times> string) list \<Rightarrow> 't ImfData
     \<Rightarrow> error option \<times> 't ImfData" where
  "assign_fields to_float i [] self = (None, self)"
| "assign_fields to_float i ((k, p) # kps) self =
     (case set_float to_float self k i p of
        Inl e \<Rightarrow> (Some e, self)
      | Inr s \<Rightarrow> assign_fields to_float i kps s)"

text \<open>
  Lines 263-272, the body of the loop over the lines once the line is split into
  \<open>parts\<close>. \<open>strptime\<close> stands for
  \<^verbatim>\<open>dt.datetime.strptime(tNow, '%Y %m %d %H %M %S')\<close>, \<open>None\<close> where it raises
  \<open>ValueError\<close>.
\<close>

definition parse_parts ::
  "(string \<Rightarrow> 't option) \<Rightarrow> (string \<Rightarrow> real option) \<Rightarrow> nat \<Rightarrow> string list \<Rightarrow> 't ImfData
     \<Rightarrow> error option \<times> 't ImfData" where
  "parse_parts strptime to_float i parts self =
     (let tNow = join_sp (take 6 parts)
      in case strptime tNow of
           None \<Rightarrow> (Some ValueError, self)
         | Some t \<Rightarrow>
             (case set_time self i t of
                Inl e \<Rightarrow> (Some e, self)
              | Inr s \<Rightarrow> assign_fields to_float i (zip keys (drop 7 parts)) s))"

definition parse_line ::
  "(string \<Rightarrow> 't option) \<Rightarrow> (string \<Rightarrow> real option) \<Rightarrow> nat \<Rightarrow> string \<Rightarrow> 't ImfData
     \<Rightarrow> error option \<times> 't ImfData" where
  "parse_line strptime to_float i l self = parse_parts strptime to_float i (split l) self"

text \<open>Line 254, \<open>for i, l in enumerate(lines)\<close>, from index \<open>i\<close> on.\<close>

fun parse_lines ::
  "(string \<Rightarrow> 't option) \<Rightarrow> (string \<Rightarrow> real option) \<Rightarrow> nat \<Rightarrow> string list \<Rightarrow> 't ImfData
     \<Rightarrow> error option \<times> 't ImfData" where
  "parse_lines strptime to_float i [] self = (None, self)"
| "parse_lines strptime to_float i (l # ls) self =
     (case parse_line strptime to_float i l self of
        (Some e, s) \<Rightarrow> (Some e, s)
      | (None, s) \<Rightarrow> parse_lines strptime to_float (Suc i) ls s)"

text \<open>
  \<open>_read_data\<close>. The file system maps the name of a readable file to its lines. The
  result is \<open>None\<close> when the method never returns; otherwise the exception raised (if
  any), the object as the method leaves it, and the files opened and closed, in order.
\<close>

datatype io_event = OpenFile string | CloseFile string

definition read_data ::
  "(string \<rightharpoonup> string list) \<Rightarrow> (string \<Rightarrow> 't option) \<Rightarrow> (string \<Rightarrow> real option) \<Rightarrow> 't ImfData
     \<Rightarrow> (error option \<times> 't ImfData \<times> io_event list) option" where
  "read_data fs strptime to_float self =
     (case self_file self of
        PyStr name \<Rightarrow>
          (case fs name of
             None \<Rightarrow> Some (Some IOError, self, [OpenFile name])
           | Some c \<Rightarrow>
               (case lines_after_start c of
                  None \<Rightarrow> None
                | Some lines \<Rightarrow>
                    (let nLines = length lines;
                         (e, s) = parse_lines strptime to_float 0 lines (alloc_arrays nLines self)
                     in Some (e, s, [OpenFile name, CloseFile name]))))
      | _ \<Rightarrow> Some (Some TypeError, self, []))"

text \<open>
  \<open>__init__\<close>: an empty dictionary, the file name stored as given, then \<open>_read_data\<close>.
\<close>

definition ImfData_init ::
  "(string \<rightharpoonup> string list) \<Rightarrow> (string \<Rightarrow> 't option) \<Rightarrow> (string \<Rightarrow> real option) \<Rightarrow> pyval
     \<Rightarrow> (error option \<times> 't ImfData \<times> io_event list) option" where
  "ImfData_init fs strptime to_float filename =
     read_data fs strptime to_float \<lparr>items = Map.empty, self_file = filename\<rparr>"

section \<open>numpy arithmetic\<close>

text \<open>
  Element-wise operations on arrays. Two float arrays combine element by element when
  their lengths agree, an array of length 1 is broadcast against the other, and any other
  pair of lengths raises \<open>ValueError\<close>. On an object array the operations raise
  \<open>TypeError\<close>: that is what numpy does for \<open>np.sqrt\<close>, \<open>np.arctan2\<close> and \<open>np.sin\<close>
  on any object array and for arithmetic on the datetime and string objects; arithmetic
  on an object array of Python numbers is not modelled further.
\<close>

definition broadcast2 :: "(real \<Rightarrow> real \<Rightarrow> real) \<Rightarrow> real list \<Rightarrow> real list \<Rightarrow> error + real list" where
  "broadcast2 f xs ys =
     (if length xs = length ys then Inr (map2 f xs ys)
      else if length xs = 1 then Inr (map (f (hd xs)) ys)
      else if length ys = 1 then Inr (map (\<lambda>x. f x (hd ys)) xs)
      else Inl ValueError)"

fun np_map :: "(real \<Rightarrow> real) \<Rightarrow> 't ndarray \<Rightarrow> error + 't ndarray" where
  "np_map f (Floats xs) = Inr (Floats (map f xs))"
| "np_map f (Objects os) = Inl TypeError"

fun np_binary :: "(real \<Rightarrow> real \<Rightarrow> real) \<Rightarrow> 't ndarray \<Rightarrow> 't ndarray \<Rightarrow> error + 't ndarray" where
  "np_binary f (Floats xs) (Floats ys) = bnd (broadcast2 f xs ys) (\<lambda>zs. Inr (Floats zs))"
| "np_binary f a b = Inl TypeError"

text \<open>\<open>a**n\<close>, \<open>a + b\<close>, \<open>a * b\<close>, \<open>c * a\<close> and \<open>a / c\<close> for a Python float \<open>c\<close>.\<close>

definition np_pow :: "'t ndarray \<Rightarrow> nat \<Rightarrow> error + 't ndarray" where
  "np_pow a n = np_map (\<lambda>x. x ^ n) a"

definition np_add :: "'t ndarray \<Rightarrow> 't ndarray \<Rightarrow> error + 't ndarray" where
  "np_add a b = np_binary (+) a b"

definition np_mul :: "'t ndarray \<Rightarrow> 't ndarray \<Rightarrow> error + 't ndarray" where
  "np_mul a b = np_binary (*) a b"

definition np_scale :: "real \<Rightarrow> 't ndarray \<Rightarrow> error + 't ndarray" where
  "np_scale c a = np_map (\<lambda>x. c * x) a"

definition np_div_by :: "'t ndarray \<Rightarrow> real \<Rightarrow> error + 't ndarray" where
  "np_div_by a c = np_map (\<lambda>x. x / c) a"

definition np_sqrt :: "'t ndarray \<Rightarrow> error + 't ndarray" where
  "np_sqrt a = np_map sqrt a"

definition np_sin :: "'t ndarray \<Rightarrow> error + 't ndarray" where
  "np_sin a = np_map sin a"

text \<open>
  \<open>np.arctan2(y, x)\<close>: the angle of the point \<open>(x, y)\<close>, by quadrant, with
  \<open>arctan2(0, 0) = 0\<close>.
\<close>

definition arctan2 :: "real \<Rightarrow> real \<Rightarrow> real" where
  "arctan2 y x =
     (if 0 < x then arctan (y / x)
      else if x < 0 then (if 0 \<le> y then arctan (y / x) + pi else arctan (y / x) - pi)
      else if 0 < y then pi / 2
      else if y < 0 then - (pi / 2)
      else 0)"

definition np_arctan2 :: "'t ndarray \<Rightarrow> 't ndarray \<Rightarrow> error + 't ndarray" where
  "np_arctan2 a b = np_binary arctan2 a b"

section \<open>The derived quantities\<close>

text \<open>
  A method that mutates \<open>self\<close> returns the exception it raised (if any) and the object
  as it leaves it. An assignment \<open>self[k] = e\<close> stores nothing when \<open>e\<close> raises.
\<close>

definition assign ::
  "'t ImfData \<Rightarrow> string \<Rightarrow> error + 't ndarray \<Rightarrow> error option \<times> 't ImfData" where
  "assign self k r = (case r of Inl e \<Rightarrow> (Some e, self) | Inr a \<Rightarrow> (None, setitem self k a))"

text \<open>Line 155: \<^verbatim>\<open>self['b'] = sqrt(self['bx']**2 + self['by']**2 +self['bz']**2)\<close>\<close>

definition calc_b :: "'t ImfData \<Rightarrow> error option \<times> 't ImfData" where
  "calc_b self =
     assign self ''b''
       (bnd (getitem self ''bx'') (\<lambda>bx. bnd (np_pow bx 2) (\<lambda>bx2.
        bnd (getitem self ''by'') (\<lambda>by. bnd (np_pow by 2) (\<lambda>by2.
        bnd (np_add bx2 by2) (\<lambda>s1.
        bnd (getitem self ''bz'') (\<lambda>bz. bnd (np_pow bz 2) (\<lambda>bz2.
        bnd (np_add s1 bz2) (\<lambda>s2. np_sqrt s2)))))))))"

text \<open>Line 164: \<^verbatim>\<open>self['v'] = sqrt(self['vx']**2 + self['vy']**2 +self['vz']**2)\<close>\<close>

definition calc_v :: "'t ImfData \<Rightarrow> error option \<times> 't ImfData" where
  "calc_v self =
     assign self ''v''
       (bnd (getitem self ''vx'') (\<lambda>vx. bnd (np_pow vx 2) (\<lambda>vx2.
        bnd (getitem self ''vy'') (\<lambda>vy. bnd (np_pow vy 2) (\<lambda>vy2.
        bnd (np_add vx2 vy2) (\<lambda>s1.
        bnd (getitem self ''vz'') (\<lambda>vz. bnd (np_pow vz 2) (\<lambda>vz2.
        bnd (np_add s1 vz2) (\<lambda>s2. np_sqrt s2)))))))))"

text \<open>Line 171: \<^verbatim>\<open>self['clock'] = np.arctan2(self['by'],self['bz'])\<close>\<close>

definition calc_clock :: "'t ImfData \<Rightarrow> error option \<times> 't ImfData" where
  "calc_clock self =
     assign self ''clock''
       (bnd (getitem self ''by'') (\<lambda>by. bnd (getitem self ''bz'') (\<lambda>bz. np_arctan2 by bz)))"

text \<open>
  Lines 180-182: \<^verbatim>\<open>if 'b' not in self: self.calc_b()\<close>, and the same for \<open>v\<close> and
  \<open>clock\<close>.
\<close>

definition ensure ::
  "string \<Rightarrow> ('t ImfData \<Rightarrow> error option \<times> 't ImfData) \<Rightarrow> 't ImfData \<Rightarrow> error option \<times> 't ImfData" where
  "ensure k calc self = (if k \<notin> dom (items self) then calc self else (None, self))"

text \<open>Lines 185 and 188: \<open>mu_o = 4*np.pi*1E-7\<close> and \<open>conv = 1000. * 1E-9**2 /mu_o\<close>.\<close>

definition mu_o :: real where
  "mu_o = 4 * pi * (1 / 10 ^ 7)"

definition conv :: real where
  "conv = 1000 * (1 / 10 ^ 9) ^ 2 / mu_o"

text \<open>
  Line 190:
  \<^verbatim>\<open>self['epsilon'] = conv*self['v']*self['b']**2*np.sin(self['clock']/2)**4\<close>,
  that is \<open>((conv * v) * b**2) * sin(clock / 2)**4\<close>, evaluated from left to right.
\<close>

definition epsilon_formula :: "'t ImfData \<Rightarrow> error + 't ndarray" where
  "epsilon_formula self =
     bnd (getitem self ''v'') (\<lambda>v. bnd (np_scale conv v) (\<lambda>cv.
     bnd (getitem self ''b'') (\<lambda>b. bnd (np_pow b 2) (\<lambda>b2.
     bnd (np_mul cv b2) (\<lambda>cvb.
     bnd (getitem self ''clock'') (\<lambda>clock. bnd (np_div_by clock 2) (\<lambda>half.
     bnd (np_sin half) (\<lambda>sn. bnd (np_pow sn 4) (\<lambda>sn4.
     np_mul cvb sn4)))))))))"

definition calc_epsilon :: "'t ImfData \<Rightarrow> error option \<times> 't ImfData" where
  "calc_epsilon self =
     (case ensure ''b'' calc_b self of
        (Some e, s1) \<Rightarrow> (Some e, s1)
      | (None, s1) \<Rightarrow>
          (case ensure ''v'' calc_v s1 of
             (Some e, s2) \<Rightarrow> (Some e, s2)
           | (None, s2) \<Rightarrow>
               (case ensure ''clock'' calc_clock s2 of
                  (Some e, s3) \<Rightarrow> (Some e, s3)
                | (None, s3) \<Rightarrow> assign s3 ''epsilon'' (epsilon_formula s3))))"

section \<open>Vocabulary of the statements\<close>

text \<open>
  A data line is well formed when \<open>_read_data\<close> parses it without an exception: its
  first six tokens, joined by blanks, are a timestamp that \<open>strptime\<close> accepts, and each of
  the tokens 7 to 14 that the line has is a number that \<open>float\<close> accepts.
\<close>

definition data_line_ok :: "(string \<Rightarrow> 't option) \<Rightarrow> (string \<Rightarrow> real option) \<Rightarrow> string \<Rightarrow> bool" where
  "data_line_ok strptime to_float l =
     (let parts = split l
      in strptime (join_sp (take 6 parts)) \<noteq> None \<and>
         list_all (\<lambda>p. to_float p \<noteq> None) (take 8 (drop 7 parts)))"

text \<open>\<open>len(a)\<close> for an array \<open>a\<close>.\<close>

definition np_len :: "'t ndarray \<Rightarrow> nat" where
  "np_len a = (case a of Floats xs \<Rightarrow> length xs | Objects os \<Rightarrow> length os)"


section \<open>The header loop\<close>

lemma skip_header_Some_sentinel:
  assumes "skip_header line f = Some y"
  shows "strip line = ''#START'' \<or> (\<exists>l \<in> set (drop (pos f) (content f)). strip l = ''#START'')"
proof (rule skip_header.raw_induct[where P = "\<lambda>line f y. strip line = ''#START'' \<or>
          (\<exists>l \<in> set (drop (pos f) (content f)). strip l = ''#START'')", OF _ assms])
  fix sk :: "string \<Rightarrow> filehandle \<Rightarrow> filehandle option" and line f y
  assume IH: "\<And>line f y. sk line f = Some y \<Longrightarrow> strip line = ''#START'' \<or>
          (\<exists>l \<in> set (drop (pos f) (content f)). strip l = ''#START'')"
    and body: "(if strip line \<noteq> ''#START'' then sk (fst (readline f)) (snd (readline f)) else Some f) = Some y"
  show "strip line = ''#START'' \<or> (\<exists>l \<in> set (drop (pos f) (content f)). strip l = ''#START'')"
  proof (cases "strip line = ''#START''")
    case True
    then show ?thesis by simp
  next
    case False
    with body have st: "sk (fst (readline f)) (snd (readline f)) = Some y" by simp
    show ?thesis
    proof (cases "pos f < length (content f)")
      case True
      then have rl: "fst (readline f) = content f ! pos f" "snd (readline f) = f\<lparr>pos := Suc (pos f)\<rparr>"
        by (simp_all add: readline_def)
      from IH[OF st] rl
      have "strip (content f ! pos f) = ''#START'' \<or>
            (\<exists>l \<in> set (drop (Suc (pos f)) (content f)). strip l = ''#START'')" by simp
      moreover have "drop (pos f) (content f) = content f ! pos f # drop (Suc (pos f)) (content f)"
        using True by (simp add: Cons_nth_drop_Suc)
      ultimately show ?thesis by auto
    next
      case False
      then have rl: "fst (readline f) = []" "snd (readline f) = f"
        by (simp_all add: readline_def)
      from IH[OF st] rl have "strip [] = ''#START'' \<or>
            (\<exists>l \<in> set (drop (pos f) (content f)). strip l = ''#START'')" by simp
      then show ?thesis by (simp add: strip_def)
    qed
  qed
qed

lemma skip_header_found:
  assumes "\<forall>l \<in> set hs. strip l \<noteq> ''#START''" "strip s = ''#START''"
    "strip line \<noteq> ''#START''" "drop (pos f) (content f) = hs @ s # rest"
  shows "skip_header line f = Some (f\<lparr>pos := pos f + length hs + 1\<rparr>)"
  using assms
proof (induction hs arbitrary: line f)
  case Nil
  then have lt: "pos f < length (content f)"
    by (metis drop_all list.distinct(1) not_le append_Nil)
  have "content f ! pos f = s"
    using Nil(4) lt by (metis append_Nil nth_via_drop)
  then have rl: "fst (readline f) = s" "snd (readline f) = f\<lparr>pos := Suc (pos f)\<rparr>"
    using lt by (simp_all add: readline_def)
  show ?case
    by (subst skip_header.simps, simp add: Nil(3) rl, subst skip_header.simps, simp add: Nil(2))
next
  case (Cons h hs)
  then have lt: "pos f < length (content f)"
    by (metis drop_all list.distinct(1) not_le append_Cons)
  have hd: "content f ! pos f = h"
    using Cons(5) lt by (metis append_Cons nth_via_drop)
  then have rl: "fst (readline f) = h" "snd (readline f) = f\<lparr>pos := Suc (pos f)\<rparr>"
    using lt by (simp_all add: readline_def)
  have dr: "drop (pos (f\<lparr>pos := Suc (pos f)\<rparr>)) (content (f\<lparr>pos := Suc (pos f)\<rparr>)) = hs @ s # rest"
  proof -
    have "drop (Suc (pos f)) (content f) = tl (drop (pos f) (content f))"
      by (simp add: drop_Suc tl_drop)
    then show ?thesis
      using Cons(5) by simp
  qed
  have "skip_header h (f\<lparr>pos := Suc (pos f)\<rparr>) = Some (f\<lparr>pos := Suc (pos f), pos := Suc (pos f) + length hs + 1\<rparr>)"
    using Cons(1)[of h "f\<lparr>pos := Suc (pos f)\<rparr>"] Cons(2,3) dr by simp
  then show ?case
    by (subst skip_header.simps) (simp add: Cons(4) rl)
qed

lemma lines_after_start_unfold:
  "lines_after_start c =
     (case skip_header (fst (readline \<lparr>content = c, pos = 0\<rparr>))
             (snd (readline \<lparr>content = c, pos = 0\<rparr>)) of
        None \<Rightarrow> None
      | Some f2 \<Rightarrow> Some (drop (pos f2) (content f2)))"
  by (simp add: lines_after_start_def readlines_def case_prod_unfold Let_def split: option.split)

lemma lines_after_start_found:
  assumes "\<forall>l \<in> set hs. strip l \<noteq> ''#START''" "strip s = ''#START''"
  shows "lines_after_start (hs @ s # rest) = Some rest"
proof (cases hs)
  case Nil
  let ?f = "\<lparr>content = s # rest, pos = Suc 0\<rparr>"
  have rl: "readline \<lparr>content = s # rest, pos = 0\<rparr> = (s, ?f)"
    by (simp add: readline_def)
  have "skip_header s ?f = Some ?f"
    by (subst skip_header.simps) (simp add: assms(2))
  then have "lines_after_start (s # rest) = Some rest"
    unfolding lines_after_start_unfold rl by simp
  then show ?thesis
    using Nil by simp
next
  case (Cons h hs')
  let ?c = "h # hs' @ s # rest"
  let ?f = "\<lparr>content = ?c, pos = Suc 0\<rparr>"
  have rl: "readline \<lparr>content = ?c, pos = 0\<rparr> = (h, ?f)"
    by (simp add: readline_def)
  have h: "strip h \<noteq> ''#START''" and hs': "\<forall>l \<in> set hs'. strip l \<noteq> ''#START''"
    using assms(1) Cons by simp_all
  have dr: "drop (pos ?f) (content ?f) = hs' @ s # rest"
    by simp
  have "skip_header h ?f = Some (?f\<lparr>pos := pos ?f + length hs' + 1\<rparr>)"
    by (rule skip_header_found[OF hs' assms(2) h dr])
  then have "lines_after_start ?c = Some rest"
    unfolding lines_after_start_unfold rl by simp
  then show ?thesis
    using Cons by simp
qed

lemma lines_after_start_no_sentinel:
  assumes "\<forall>l \<in> set c. strip l \<noteq> ''#START''"
  shows "lines_after_start c = None"
proof (cases c)
  case Nil
  let ?f = "\<lparr>content = [], pos = 0\<rparr>"
  have rl: "readline ?f = ([], ?f)"
    by (simp add: readline_def)
  have e: "strip [] \<noteq> ''#START''"
    by (simp add: strip_def)
  have "skip_header [] ?f = None"
  proof (cases "skip_header [] ?f")
    case (Some y)
    from skip_header_Some_sentinel[OF Some] e show ?thesis by simp
  qed simp
  then show ?thesis
    unfolding lines_after_start_unfold Nil rl by simp
next
  case (Cons x xs)
  let ?f = "\<lparr>content = x # xs, pos = Suc 0\<rparr>"
  have rl: "readline \<lparr>content = x # xs, pos = 0\<rparr> = (x, ?f)"
    by (simp add: readline_def)
  have x: "strip x \<noteq> ''#START''" and xs: "\<forall>l \<in> set xs. strip l \<noteq> ''#START''"
    using assms Cons by simp_all
  have "skip_header x ?f = None"
  proof (cases "skip_header x ?f")
    case (Some y)
    from skip_header_Some_sentinel[OF Some] x xs show ?thesis by simp
  qed simp
  then show ?thesis
    unfolding lines_after_start_unfold Cons rl by simp
qed

lemma strip_padded_START: "strip ''  #START  '' = ''#START''"
  by code_simp

text \<open>
  Claim C5. The loader recognises the sentinel by trimmed equality. The list \<open>lines\<close> that
  \<open>_read_data\<close> parses is \<open>rest\<close> exactly when the file is some lines \<open>hs\<close>, none of
  which strips to \<open>#START\<close>, then a line \<open>s\<close> that strips to \<open>#START\<close>, then \<open>rest\<close>:
  the header loop stops at the first line whose stripped content is \<open>#START\<close>, every
  later line is a data line, and no line whose stripped content differs from \<open>#START\<close>
  ends the loop. The padded line \<open>"  #START  "\<close> strips to \<open>#START\<close>.
\<close>

theorem sentinel_is_first_line_stripping_to_START:
  "(lines_after_start c = Some rest \<longleftrightarrow>
      (\<exists>hs s. c = hs @ s # rest \<and> strip s = ''#START'' \<and> (\<forall>l \<in> set hs. strip l \<noteq> ''#START'')))
   \<and> strip ''  #START  '' = ''#START''"
proof (intro conjI iffI)
  assume r: "lines_after_start c = Some rest"
  show "\<exists>hs s. c = hs @ s # rest \<and> strip s = ''#START'' \<and> (\<forall>l \<in> set hs. strip l \<noteq> ''#START'')"
  proof (cases "\<exists>l \<in> set c. strip l = ''#START''")
    case True
    then obtain hs s rest' where d: "c = hs @ s # rest'" "strip s = ''#START''"
        "\<forall>l \<in> set hs. strip l \<noteq> ''#START''"
      using split_list_first_prop[of c "\<lambda>l. strip l = ''#START''"] by blast
    then have "lines_after_start c = Some rest'"
      using lines_after_start_found[of hs s rest'] by simp
    with r have "rest' = rest" by simp
    with d show ?thesis by blast
  next
    case False
    then have "lines_after_start c = None"
      using lines_after_start_no_sentinel[of c] by blast
    with r show ?thesis by simp
  qed
next
  assume "\<exists>hs s. c = hs @ s # rest \<and> strip s = ''#START'' \<and> (\<forall>l \<in> set hs. strip l \<noteq> ''#START'')"
  then show "lines_after_start c = Some rest"
    using lines_after_start_found by blast
next
  show "strip ''  #START  '' = ''#START''"
    by (rule strip_padded_START)
qed

text \<open>
  A file with a line \<open>#STARTED\<close> in its header, a padded sentinel and a second
  \<open>#START\<close> line among its data.
\<close>

theorem sentinel_is_first_line_stripping_to_START_witness:
  "lines_after_start [''header'', ''#STARTED'', ''  #START  '', ''row 1'', ''#START'', ''row 2'']
     = Some [''row 1'', ''#START'', ''row 2'']"
proof -
  have "\<exists>hs s. [''header'', ''#STARTED'', ''  #START  '', ''row 1'', ''#START'', ''row 2'']
          = hs @ s # [''row 1'', ''#START'', ''row 2''] \<and> strip s = ''#START'' \<and>
          (\<forall>l \<in> set hs. strip l \<noteq> ''#START'')"
  proof (intro exI conjI)
    show "[''header'', ''#STARTED'', ''  #START  '', ''row 1'', ''#START'', ''row 2'']
          = [''header'', ''#STARTED''] @ ''  #START  '' # [''row 1'', ''#START'', ''row 2'']" by simp
    show "strip ''  #START  '' = ''#START''" by code_simp
    show "\<forall>l \<in> set [''header'', ''#STARTED'']. strip l \<noteq> ''#START''" by code_simp
  qed
  then show ?thesis
    using sentinel_is_first_line_stripping_to_START by blast
qed

section \<open>The parsing loop\<close>

lemma items_setitem: "items (setitem s k a) k' = (if k' = k then Some a else items s k')"
  by (simp add: setitem_def)

lemma self_file_setitem: "self_file (setitem s k a) = self_file s"
  by (simp add: setitem_def)

lemma items_fold_setitem:
  "items (fold (\<lambda>k s. setitem s k a) ks s0) k = (if k \<in> set ks then Some a else items s0 k)"
  by (induction ks arbitrary: s0) (auto simp: items_setitem)

lemma self_file_fold_setitem:
  "self_file (fold (\<lambda>k s. setitem s k a) ks s0) = self_file s0"
  by (induction ks arbitrary: s0) (auto simp: self_file_setitem)

lemma time_not_key: "''time'' \<notin> set keys"
  by (simp add: keys_def)

lemma distinct_keys: "distinct keys"
  by (simp add: keys_def)

lemma length_keys: "length keys = 8"
  by (simp add: keys_def)

lemma items_alloc_arrays:
  "items (alloc_arrays n s) k =
     (if k \<in> set keys then Some (np_zeros n)
      else if k = ''time'' then Some (np_zeros_object n) else items s k)"
  by (simp add: alloc_arrays_def items_fold_setitem items_setitem)

lemma self_file_alloc_arrays: "self_file (alloc_arrays n s) = self_file s"
  by (simp add: alloc_arrays_def self_file_fold_setitem self_file_setitem)

lemma map_of_zip_nth_trunc:
  "distinct xs \<Longrightarrow> j < length xs \<Longrightarrow>
   map_of (zip xs ys) (xs ! j) = (if j < length ys then Some (ys ! j) else None)"
proof (induction xs arbitrary: ys j)
  case Nil
  then show ?case by simp
next
  case (Cons x xs)
  show ?case
  proof (cases ys)
    case Nil
    then show ?thesis by simp
  next
    case (Cons y ys')
    show ?thesis
    proof (cases j)
      case 0
      then show ?thesis using Cons by simp
    next
      case (Suc j')
      have "xs ! j' \<noteq> x"
        using Cons.prems Suc by auto
      then show ?thesis
        using Cons Suc Cons.IH[of j' ys'] Cons.prems by simp
    qed
  qed
qed

lemma set_float_Floats:
  "items s k = Some (Floats xs) \<Longrightarrow> i < length xs \<Longrightarrow> tf p = Some x \<Longrightarrow>
   set_float tf s k i p = Inr (setitem s k (Floats (xs[i := x])))"
  by (simp add: set_float_def)

lemma assign_fields_success:
  assumes "distinct (map fst kps)"
    and "\<forall>(k, p) \<in> set kps. \<exists>xs x. items s k = Some (Floats xs) \<and> i < length xs \<and> tf p = Some x"
  shows "\<exists>s'. assign_fields tf i kps s = (None, s') \<and> self_file s' = self_file s \<and>
           (\<forall>k. k \<notin> fst ` set kps \<longrightarrow> items s' k = items s k) \<and>
           (\<forall>k p xs. map_of kps k = Some p \<longrightarrow> items s k = Some (Floats xs) \<longrightarrow>
              items s' k = Some (Floats (xs[i := the (tf p)])))"
  using assms
proof (induction kps arbitrary: s)
  case Nil
  then show ?case by simp
next
  case (Cons kp kps)
  obtain k p where kp: "kp = (k, p)" by (cases kp)
  from Cons.prems(2) kp obtain xs x where
    h: "items s k = Some (Floats xs)" "i < length xs" "tf p = Some x"
    by auto
  let ?s1 = "setitem s k (Floats (xs[i := x]))"
  have sf: "set_float tf s k i p = Inr ?s1"
    using h by (simp add: set_float_Floats)
  have knot: "k \<notin> fst ` set kps"
    using Cons.prems(1) kp by simp
  have d: "distinct (map fst kps)"
    using Cons.prems(1) by simp
  have pre: "\<forall>(k', p') \<in> set kps. \<exists>xs x. items ?s1 k' = Some (Floats xs) \<and> i < length xs \<and> tf p' = Some x"
  proof (clarify)
    fix k' p' assume m: "(k', p') \<in> set kps"
    then have "k' \<noteq> k" using knot by force
    moreover from Cons.prems(2) m obtain ys y where
      "items s k' = Some (Floats ys)" "i < length ys" "tf p' = Some y" by auto
    ultimately show "\<exists>xs x. items ?s1 k' = Some (Floats xs) \<and> i < length xs \<and> tf p' = Some x"
      by (simp add: items_setitem)
  qed
  from Cons.IH[OF d pre] obtain s' where
    r: "assign_fields tf i kps ?s1 = (None, s')" "self_file s' = self_file ?s1"
      "\<forall>k. k \<notin> fst ` set kps \<longrightarrow> items s' k = items ?s1 k"
      "\<forall>k p xs. map_of kps k = Some p \<longrightarrow> items ?s1 k = Some (Floats xs) \<longrightarrow>
              items s' k = Some (Floats (xs[i := the (tf p)]))"
    by blast
  have 1: "assign_fields tf i (kp # kps) s = (None, s')"
    using r(1) sf kp by simp
  have 2: "self_file s' = self_file s"
    using r(2) by (simp add: self_file_setitem)
  have 3: "\<forall>k'. k' \<notin> fst ` set (kp # kps) \<longrightarrow> items s' k' = items s k'"
    using r(3) kp by (simp add: items_setitem)
  have 4: "\<forall>k' p' ys. map_of (kp # kps) k' = Some p' \<longrightarrow> items s k' = Some (Floats ys) \<longrightarrow>
              items s' k' = Some (Floats (ys[i := the (tf p')]))"
  proof (intro allI impI)
    fix k' p' ys
    assume m: "map_of (kp # kps) k' = Some p'" and it: "items s k' = Some (Floats ys)"
    show "items s' k' = Some (Floats (ys[i := the (tf p')]))"
    proof (cases "k' = k")
      case True
      then have "p' = p" "ys = xs" using m kp it h(1) by simp_all
      moreover have "items s' k = items ?s1 k" using r(3) knot by blast
      ultimately show ?thesis using True h(3) by (simp add: items_setitem)
    next
      case False
      then have "map_of kps k' = Some p'" using m kp by simp
      moreover have "items ?s1 k' = Some (Floats ys)" using False it by (simp add: items_setitem)
      ultimately show ?thesis using r(4) by blast
    qed
  qed
  from 1 2 3 4 show ?case by blast
qed

lemma zip_keys_facts:
  assumes "(k, p) \<in> set (zip keys ps)"
  shows "k \<in> set keys" "p \<in> set (take 8 ps)"
proof -
  from assms obtain n where n: "keys ! n = k" "ps ! n = p" "n < length keys" "n < length ps"
    by (auto simp: in_set_zip)
  show "k \<in> set keys" using n by auto
  have "n < length (take 8 ps)" using n(3,4) by (simp add: length_keys)
  moreover have "take 8 ps ! n = p" using n by (simp add: length_keys)
  ultimately show "p \<in> set (take 8 ps)" by (metis nth_mem)
qed

lemma parse_line_success:
  assumes ok: "data_line_ok sp tf l"
    and tm: "items s ''time'' = Some (Objects os)" "i < length os"
    and fl: "\<forall>k \<in> set keys. \<exists>xs. items s k = Some (Floats xs) \<and> i < length xs"
  shows "\<exists>s' t. parse_line sp tf i l s = (None, s') \<and> self_file s' = self_file s \<and>
           items s' ''time'' = Some (Objects (os[i := ObjTime t])) \<and>
           (\<forall>k. k \<noteq> ''time'' \<and> k \<notin> set keys \<longrightarrow> items s' k = items s k) \<and>
           (\<forall>j xs. j < 8 \<longrightarrow> items s (keys ! j) = Some (Floats xs) \<longrightarrow>
              items s' (keys ! j) =
                Some (Floats (if 7 + j < length (split l)
                              then xs[i := the (tf (split l ! (7 + j)))] else xs)))"
proof -
  let ?parts = "split l"
  let ?kps = "zip keys (drop 7 ?parts)"
  from ok obtain t where t: "sp (join_sp (take 6 ?parts)) = Some t"
    and toks: "list_all (\<lambda>p. tf p \<noteq> None) (take 8 (drop 7 ?parts))"
    by (auto simp: data_line_ok_def Let_def)
  let ?s1 = "setitem s ''time'' (Objects (os[i := ObjTime t]))"
  have st: "set_time s i t = Inr ?s1"
    using tm by (simp add: set_time_def)
  have d: "distinct (map fst ?kps)"
    by (simp add: map_fst_zip_take distinct_keys)
  have pre: "\<forall>(k, p) \<in> set ?kps. \<exists>xs x. items ?s1 k = Some (Floats xs) \<and> i < length xs \<and> tf p = Some x"
  proof (clarify)
    fix k p assume m: "(k, p) \<in> set ?kps"
    have k: "k \<in> set keys" and p: "p \<in> set (take 8 (drop 7 ?parts))"
      using zip_keys_facts[OF m] by simp_all
    from k have "k \<noteq> ''time''" using time_not_key by auto
    moreover from fl k obtain xs where "items s k = Some (Floats xs)" "i < length xs" by blast
    moreover from toks p obtain x where "tf p = Some x" by (auto simp: list_all_iff)
    ultimately show "\<exists>xs x. items ?s1 k = Some (Floats xs) \<and> i < length xs \<and> tf p = Some x"
      by (simp add: items_setitem)
  qed
  from assign_fields_success[OF d pre] obtain s' where
    r: "assign_fields tf i ?kps ?s1 = (None, s')" "self_file s' = self_file ?s1"
      "\<forall>k. k \<notin> fst ` set ?kps \<longrightarrow> items s' k = items ?s1 k"
      "\<forall>k p xs. map_of ?kps k = Some p \<longrightarrow> items ?s1 k = Some (Floats xs) \<longrightarrow>
              items s' k = Some (Floats (xs[i := the (tf p)]))"
    by blast
  have sub: "fst ` set ?kps \<subseteq> set keys"
    by (auto dest: set_zip_leftD)
  have 1: "parse_line sp tf i l s = (None, s')"
    using t st r(1) by (simp add: parse_line_def parse_parts_def)
  have 2: "self_file s' = self_file s"
    using r(2) by (simp add: self_file_setitem)
  have 3: "items s' ''time'' = Some (Objects (os[i := ObjTime t]))"
  proof -
    have "''time'' \<notin> fst ` set ?kps" using sub time_not_key by blast
    then have "items s' ''time'' = items ?s1 ''time''" using r(3) by blast
    then show ?thesis by (simp add: items_setitem)
  qed
  have 4: "\<forall>k. k \<noteq> ''time'' \<and> k \<notin> set keys \<longrightarrow> items s' k = items s k"
  proof (intro allI impI)
    fix k assume k: "k \<noteq> ''time'' \<and> k \<notin> set keys"
    then have "k \<notin> fst ` set ?kps" using sub by blast
    then have "items s' k = items ?s1 k" using r(3) by blast
    then show "items s' k = items s k" using k by (simp add: items_setitem)
  qed
  have 5: "\<forall>j xs. j < 8 \<longrightarrow> items s (keys ! j) = Some (Floats xs) \<longrightarrow>
              items s' (keys ! j) =
                Some (Floats (if 7 + j < length ?parts
                              then xs[i := the (tf (?parts ! (7 + j)))] else xs))"
  proof (intro allI impI)
    fix j xs assume j: "j < 8" and it: "items s (keys ! j) = Some (Floats xs)"
    have kj: "keys ! j \<in> set keys" using j by (simp add: length_keys)
    then have nt: "keys ! j \<noteq> ''time''" using time_not_key by auto
    have it1: "items ?s1 (keys ! j) = Some (Floats xs)"
      using it nt by (simp add: items_setitem)
    have mo: "map_of ?kps (keys ! j) =
        (if j < length (drop 7 ?parts) then Some (drop 7 ?parts ! j) else None)"
      using map_of_zip_nth_trunc[OF distinct_keys, of j "drop 7 ?parts"] j
      by (simp add: length_keys)
    show "items s' (keys ! j) =
                Some (Floats (if 7 + j < length ?parts
                              then xs[i := the (tf (?parts ! (7 + j)))] else xs))"
    proof (cases "7 + j < length ?parts")
      case True
      then have "map_of ?kps (keys ! j) = Some (?parts ! (7 + j))"
        using mo by simp
      then show ?thesis using r(4) it1 True by simp
    next
      case False
      then have "map_of ?kps (keys ! j) = None" using mo by simp
      then have "keys ! j \<notin> fst ` set ?kps"
        by (simp add: map_of_eq_None_iff)
      then have "items s' (keys ! j) = items ?s1 (keys ! j)" using r(3) by blast
      then show ?thesis using it1 False by simp
    qed
  qed
  from 1 2 3 4 5 show ?thesis by blast
qed

lemma parse_lines_success:
  assumes "\<forall>l \<in> set ls. data_line_ok sp tf l"
    and "items s ''time'' = Some (Objects os)" "i + length ls \<le> length os"
    and "\<forall>k \<in> set keys. \<exists>xs. items s k = Some (Floats xs) \<and> i + length ls \<le> length xs"
  shows "\<exists>s' os'. parse_lines sp tf i ls s = (None, s') \<and> self_file s' = self_file s \<and>
           items s' ''time'' = Some (Objects os') \<and> length os' = length os \<and>
           (\<forall>k. k \<noteq> ''time'' \<and> k \<notin> set keys \<longrightarrow> items s' k = items s k) \<and>
           (\<forall>j xs. j < 8 \<longrightarrow> items s (keys ! j) = Some (Floats xs) \<longrightarrow>
              (\<exists>xs'. items s' (keys ! j) = Some (Floats xs') \<and> length xs' = length xs \<and>
                 (\<forall>r < length xs. xs' ! r =
                    (if i \<le> r \<and> r < i + length ls \<and> 7 + j < length (split (ls ! (r - i)))
                     then the (tf (split (ls ! (r - i)) ! (7 + j))) else xs ! r))))"
  using assms
proof (induction ls arbitrary: i s os)
  case Nil
  show ?case
  proof (intro exI conjI allI impI)
    show "parse_lines sp tf i [] s = (None, s)" by simp
    show "items s ''time'' = Some (Objects os)" by (rule Nil(2))
    show "items s (keys ! j) = Some (Floats xs) \<Longrightarrow> items s (keys ! j) = Some (Floats xs)" for j xs
      by assumption
  qed simp_all
next
  case (Cons l ls)
  have ok: "data_line_ok sp tf l" and oks: "\<forall>l \<in> set ls. data_line_ok sp tf l"
    using Cons.prems(1) by simp_all
  have ilt: "i < length os" using Cons.prems(3) by simp
  have fl: "\<forall>k \<in> set keys. \<exists>xs. items s k = Some (Floats xs) \<and> i < length xs"
  proof
    fix k assume "k \<in> set keys"
    with Cons.prems(4) obtain xs where "items s k = Some (Floats xs)" "i + length (l # ls) \<le> length xs"
      by blast
    then show "\<exists>xs. items s k = Some (Floats xs) \<and> i < length xs" by auto
  qed
  from parse_line_success[OF ok Cons.prems(2) ilt fl] obtain s1 t where
    p1: "parse_line sp tf i l s = (None, s1)" "self_file s1 = self_file s"
      "items s1 ''time'' = Some (Objects (os[i := ObjTime t]))"
      "\<forall>k. k \<noteq> ''time'' \<and> k \<notin> set keys \<longrightarrow> items s1 k = items s k"
      "\<forall>j xs. j < 8 \<longrightarrow> items s (keys ! j) = Some (Floats xs) \<longrightarrow>
              items s1 (keys ! j) =
                Some (Floats (if 7 + j < length (split l)
                              then xs[i := the (tf (split l ! (7 + j)))] else xs))"
    by (elim exE conjE) (rule that; assumption)
  have len1: "Suc i + length ls \<le> length (os[i := ObjTime t])"
    using Cons.prems(3) by simp
  have fl1: "\<forall>k \<in> set keys. \<exists>xs. items s1 k = Some (Floats xs) \<and> Suc i + length ls \<le> length xs"
  proof
    fix k assume "k \<in> set keys"
    then obtain j where j: "j < 8" "k = keys ! j"
      by (metis in_set_conv_nth length_keys)
    from Cons.prems(4) \<open>k \<in> set keys\<close> obtain xs where
      xs: "items s k = Some (Floats xs)" "i + length (l # ls) \<le> length xs" by blast
    from p1(5) j xs(1) have "items s1 k =
        Some (Floats (if 7 + j < length (split l)
                              then xs[i := the (tf (split l ! (7 + j)))] else xs))" by blast
    then show "\<exists>xs. items s1 k = Some (Floats xs) \<and> Suc i + length ls \<le> length xs"
      using xs(2) by (cases "7 + j < length (split l)") simp_all
  qed
  from Cons.IH[OF oks p1(3) len1 fl1] obtain s' os' where
    r: "parse_lines sp tf (Suc i) ls s1 = (None, s')" "self_file s' = self_file s1"
      "items s' ''time'' = Some (Objects os')" "length os' = length (os[i := ObjTime t])"
      "\<forall>k. k \<noteq> ''time'' \<and> k \<notin> set keys \<longrightarrow> items s' k = items s1 k"
      "\<forall>j xs. j < 8 \<longrightarrow> items s1 (keys ! j) = Some (Floats xs) \<longrightarrow>
              (\<exists>xs'. items s' (keys ! j) = Some (Floats xs') \<and> length xs' = length xs \<and>
                 (\<forall>r < length xs. xs' ! r =
                    (if Suc i \<le> r \<and> r < Suc i + length ls \<and> 7 + j < length (split (ls ! (r - Suc i)))
                     then the (tf (split (ls ! (r - Suc i)) ! (7 + j))) else xs ! r)))"
    by (elim exE conjE) (rule that; assumption)
  have 1: "parse_lines sp tf i (l # ls) s = (None, s')"
    using p1(1) r(1) by simp
  have 2: "self_file s' = self_file s" using r(2) p1(2) by simp
  have 4: "length os' = length os" using r(4) by simp
  have 5: "\<forall>k. k \<noteq> ''time'' \<and> k \<notin> set keys \<longrightarrow> items s' k = items s k"
    using r(5) p1(4) by simp
  have 6: "\<forall>j xs. j < 8 \<longrightarrow> items s (keys ! j) = Some (Floats xs) \<longrightarrow>
              (\<exists>xs'. items s' (keys ! j) = Some (Floats xs') \<and> length xs' = length xs \<and>
                 (\<forall>r < length xs. xs' ! r =
                    (if i \<le> r \<and> r < i + length (l # ls) \<and> 7 + j < length (split ((l # ls) ! (r - i)))
                     then the (tf (split ((l # ls) ! (r - i)) ! (7 + j))) else xs ! r)))"
  proof (intro allI impI)
    fix j xs assume j: "j < 8" and it: "items s (keys ! j) = Some (Floats xs)"
    let ?xs1 = "if 7 + j < length (split l) then xs[i := the (tf (split l ! (7 + j)))] else xs"
    have it1: "items s1 (keys ! j) = Some (Floats ?xs1)"
      using p1(5) j it by blast
    from r(6) j it1 obtain xs' where
      x: "items s' (keys ! j) = Some (Floats xs')" "length xs' = length ?xs1"
        "\<forall>r < length ?xs1. xs' ! r =
                    (if Suc i \<le> r \<and> r < Suc i + length ls \<and> 7 + j < length (split (ls ! (r - Suc i)))
                     then the (tf (split (ls ! (r - Suc i)) ! (7 + j))) else ?xs1 ! r)"
      by blast
    have l1: "length ?xs1 = length xs" by simp
    have "\<forall>r < length xs. xs' ! r =
                    (if i \<le> r \<and> r < i + length (l # ls) \<and> 7 + j < length (split ((l # ls) ! (r - i)))
                     then the (tf (split ((l # ls) ! (r - i)) ! (7 + j))) else xs ! r)"
    proof (intro allI impI)
      fix r assume r: "r < length xs"
      then have xr: "xs' ! r =
                    (if Suc i \<le> r \<and> r < Suc i + length ls \<and> 7 + j < length (split (ls ! (r - Suc i)))
                     then the (tf (split (ls ! (r - Suc i)) ! (7 + j))) else ?xs1 ! r)"
        using x(3) l1 by simp
      consider (lt) "r < i" | (eq) "r = i" | (gt) "i < r" by linarith
      then show "xs' ! r =
                    (if i \<le> r \<and> r < i + length (l # ls) \<and> 7 + j < length (split ((l # ls) ! (r - i)))
                     then the (tf (split ((l # ls) ! (r - i)) ! (7 + j))) else xs ! r)"
      proof cases
        case lt
        then show ?thesis using xr by simp
      next
        case eq
        then show ?thesis using xr r by simp
      next
        case gt
        then obtain d where d: "r = Suc i + d" by (metis less_iff_Suc_add add_Suc)
        then have "(l # ls) ! (r - i) = ls ! (r - Suc i)" by simp
        moreover have "?xs1 ! r = xs ! r" using gt by simp
        ultimately show ?thesis using xr gt by simp
      qed
    qed
    then show "\<exists>xs'. items s' (keys ! j) = Some (Floats xs') \<and> length xs' = length xs \<and>
                 (\<forall>r < length xs. xs' ! r =
                    (if i \<le> r \<and> r < i + length (l # ls) \<and> 7 + j < length (split ((l # ls) ! (r - i)))
                     then the (tf (split ((l # ls) ! (r - i)) ! (7 + j))) else xs ! r))"
      using x(1,2) l1 by simp
  qed
  show ?case
    by (rule exI[of _ s'], rule exI[of _ os'], intro conjI) (rule 1 2 r(3) 4 5 6)+
qed

lemma ImfData_init_unfold:
  "fs name = Some c \<Longrightarrow> lines_after_start c = Some ls \<Longrightarrow>
   ImfData_init fs sp tf (PyStr name) =
     Some (fst (parse_lines sp tf 0 ls (alloc_arrays (length ls) \<lparr>items = Map.empty, self_file = PyStr name\<rparr>)),
           snd (parse_lines sp tf 0 ls (alloc_arrays (length ls) \<lparr>items = Map.empty, self_file = PyStr name\<rparr>)),
           [OpenFile name, CloseFile name])"
  by (simp add: ImfData_init_def read_data_def Let_def case_prod_unfold)

lemma ImfData_init_success:
  assumes "fs name = Some (hs @ s # data)" "\<forall>l \<in> set hs. strip l \<noteq> ''#START''"
    "strip s = ''#START''" "\<forall>l \<in> set data. data_line_ok sp tf l"
  shows "\<exists>obj os'. ImfData_init fs sp tf (PyStr name) = Some (None, obj, [OpenFile name, CloseFile name]) \<and>
           self_file obj = PyStr name \<and>
           items obj ''time'' = Some (Objects os') \<and> length os' = length data \<and>
           (\<forall>k. k \<noteq> ''time'' \<and> k \<notin> set keys \<longrightarrow> items obj k = None) \<and>
           (\<forall>j < 8. \<exists>xs'. items obj (keys ! j) = Some (Floats xs') \<and> length xs' = length data \<and>
              (\<forall>r < length data. xs' ! r =
                 (if 7 + j < length (split (data ! r))
                  then the (tf (split (data ! r) ! (7 + j))) else 0)))"
proof -
  let ?n = "length data"
  let ?s0 = "alloc_arrays ?n \<lparr>items = Map.empty, self_file = PyStr name\<rparr> :: 'a ImfData"
  have la: "lines_after_start (hs @ s # data) = Some data"
    by (rule lines_after_start_found[OF assms(2,3)])
  have tm: "items ?s0 ''time'' = Some (Objects (replicate ?n (ObjInt 0)))"
    using time_not_key by (simp add: items_alloc_arrays np_zeros_object_def)
  have len: "0 + length data \<le> length (replicate ?n (ObjInt 0 :: 'a pyobj))"
    by simp
  have fl: "\<forall>k \<in> set keys. \<exists>xs. items ?s0 k = Some (Floats xs) \<and> 0 + length data \<le> length xs"
    by (simp add: items_alloc_arrays np_zeros_def)
  from parse_lines_success[OF assms(4) tm len fl] obtain s' os' where
    r: "parse_lines sp tf 0 data ?s0 = (None, s')" "self_file s' = self_file ?s0"
      "items s' ''time'' = Some (Objects os')" "length os' = length (replicate ?n (ObjInt 0 :: 'a pyobj))"
      "\<forall>k. k \<noteq> ''time'' \<and> k \<notin> set keys \<longrightarrow> items s' k = items ?s0 k"
      "\<forall>j xs. j < 8 \<longrightarrow> items ?s0 (keys ! j) = Some (Floats xs) \<longrightarrow>
              (\<exists>xs'. items s' (keys ! j) = Some (Floats xs') \<and> length xs' = length xs \<and>
                 (\<forall>r < length xs. xs' ! r =
                    (if 0 \<le> r \<and> r < 0 + length data \<and> 7 + j < length (split (data ! (r - 0)))
                     then the (tf (split (data ! (r - 0)) ! (7 + j))) else xs ! r)))"
    by (elim exE conjE) (rule that; assumption)
  have 1: "ImfData_init fs sp tf (PyStr name) = Some (None, s', [OpenFile name, CloseFile name])"
    using ImfData_init_unfold[of fs name _ data sp tf] assms(1) la r(1) by simp
  have 2: "self_file s' = PyStr name"
    using r(2) by (simp add: self_file_alloc_arrays)
  have 4: "length os' = length data" using r(4) by simp
  have 5: "\<forall>k. k \<noteq> ''time'' \<and> k \<notin> set keys \<longrightarrow> items s' k = None"
    using r(5) by (simp add: items_alloc_arrays)
  have 6: "\<forall>j < 8. \<exists>xs'. items s' (keys ! j) = Some (Floats xs') \<and> length xs' = length data \<and>
              (\<forall>r < length data. xs' ! r =
                 (if 7 + j < length (split (data ! r))
                  then the (tf (split (data ! r) ! (7 + j))) else 0))"
  proof (intro allI impI)
    fix j :: nat assume j: "j < 8"
    then have "keys ! j \<in> set keys" by (simp add: length_keys)
    then have "items ?s0 (keys ! j) = Some (Floats (replicate ?n 0))"
      by (simp add: items_alloc_arrays np_zeros_def)
    with r(6) j obtain xs' where x: "items s' (keys ! j) = Some (Floats xs')"
      "length xs' = length (replicate ?n (0::real))"
      "\<forall>r < length (replicate ?n (0::real)). xs' ! r =
                    (if 0 \<le> r \<and> r < 0 + length data \<and> 7 + j < length (split (data ! (r - 0)))
                     then the (tf (split (data ! (r - 0)) ! (7 + j))) else replicate ?n 0 ! r)"
      by blast
    have "\<forall>r < length data. xs' ! r =
                 (if 7 + j < length (split (data ! r))
                  then the (tf (split (data ! r) ! (7 + j))) else 0)"
      using x(3) by simp
    then show "\<exists>xs'. items s' (keys ! j) = Some (Floats xs') \<and> length xs' = length data \<and>
              (\<forall>r < length data. xs' ! r =
                 (if 7 + j < length (split (data ! r))
                  then the (tf (split (data ! r) ! (7 + j))) else 0))"
      using x(1,2) by simp
  qed
  show ?thesis
    by (rule exI[of _ s'], rule exI[of _ os'], intro conjI) (rule 1 2 r(3) 4 5 6)+
qed

lemma read_data_no_sentinel:
  assumes "fs name = Some c" "\<forall>l \<in> set c. strip l \<noteq> ''#START''"
  shows "ImfData_init fs sp tf (PyStr name) = None"
  using assms lines_after_start_no_sentinel[OF assms(2)]
  by (simp add: ImfData_init_def read_data_def)

text \<open>
  Claim C4. For a file of a header (lines none of which strips to \<open>#START\<close>), one
  sentinel line and \<open>N\<close> well-formed data lines, the constructor returns without an
  exception, and in the loaded dataset every base field (\<open>time\<close>, \<open>bx\<close>, \<open>by\<close>, \<open>bz\<close>,
  \<open>vx\<close>, \<open>vy\<close>, \<open>vz\<close>, \<open>rho\<close>, \<open>temp\<close>) is an array of length \<open>N\<close>.
\<close>

theorem loaded_fields_have_one_entry_per_data_line:
  assumes "fs name = Some (header @ sentinel # data)"
    and "\<forall>l \<in> set header. strip l \<noteq> ''#START''"
    and "strip sentinel = ''#START''"
    and "\<forall>l \<in> set data. data_line_ok strptime to_float l"
  shows "\<exists>obj. ImfData_init fs strptime to_float (PyStr name)
              = Some (None, obj, [OpenFile name, CloseFile name]) \<and>
           (\<forall>k \<in> set (''time'' # keys). \<exists>a. items obj k = Some a \<and> np_len a = length data)"
proof -
  from ImfData_init_success[where fs=fs and name=name and hs=header and s=sentinel and data=data
      and sp=strptime and tf=to_float, OF assms] obtain obj os' where
    r: "ImfData_init fs strptime to_float (PyStr name) = Some (None, obj, [OpenFile name, CloseFile name])"
      "items obj ''time'' = Some (Objects os')" "length os' = length data"
      "\<forall>j < 8. \<exists>xs'. items obj (keys ! j) = Some (Floats xs') \<and> length xs' = length data \<and>
              (\<forall>r < length data. xs' ! r =
                 (if 7 + j < length (split (data ! r))
                  then the (to_float (split (data ! r) ! (7 + j))) else 0))"
    by (elim exE conjE) (rule that; assumption)
  have "\<exists>a. items obj k = Some a \<and> np_len a = length data" if k: "k \<in> set (''time'' # keys)" for k
  proof (cases "k = ''time''")
    case True
    then show ?thesis using r(2,3) by (simp add: np_len_def)
  next
    case False
    then have "k \<in> set keys" using k by simp
    then obtain j where j: "j < 8" "k = keys ! j"
      by (metis in_set_conv_nth length_keys)
    with r(4) obtain xs' where "items obj k = Some (Floats xs')" "length xs' = length data"
      by blast
    then show ?thesis by (simp add: np_len_def)
  qed
  with r(1) show ?thesis by blast
qed

text \<open>
  A file of two header lines, the sentinel and two data lines, the second one short.
\<close>

theorem loaded_fields_have_one_entry_per_data_line_witness:
  "\<exists>obj. ImfData_init
            [''imf.dat'' \<mapsto> [''IMF data'', ''second header line'', ''#START'',
                ''1998 01 01 00 00 00 0 3 4 0 -400 0 0 5 100000'',
                ''1998 01 01 00 01 00 0 3 4'']]
            (map_of [(''1998 01 01 00 00 00'', 0::nat), (''1998 01 01 00 01 00'', 60)])
            (map_of [(''3'', 3), (''4'', 4), (''0'', 0), (''-400'', - 400), (''5'', 5),
                     (''100000'', 100000)])
            (PyStr ''imf.dat'')
          = Some (None, obj, [OpenFile ''imf.dat'', CloseFile ''imf.dat'']) \<and>
          (\<forall>k \<in> set (''time'' # keys). \<exists>a. items obj k = Some a \<and> np_len a = 2)"
proof -
  let ?l1 = "''1998 01 01 00 00 00 0 3 4 0 -400 0 0 5 100000''"
  let ?l2 = "''1998 01 01 00 01 00 0 3 4''"
  let ?fs = "[''imf.dat'' \<mapsto> [''IMF data'', ''second header line'', ''#START'', ?l1, ?l2]]"
  let ?sp = "map_of [(''1998 01 01 00 00 00'', 0::nat), (''1998 01 01 00 01 00'', 60)]"
  let ?tf = "map_of [(''3'', 3::real), (''4'', 4), (''0'', 0), (''-400'', - 400), (''5'', 5),
                     (''100000'', 100000)]"
  have h1: "?fs ''imf.dat'' = Some ([''IMF data'', ''second header line''] @ ''#START'' # [?l1, ?l2])"
    by simp
  have h2: "\<forall>l \<in> set [''IMF data'', ''second header line'']. strip l \<noteq> ''#START''"
    by code_simp
  have h3: "strip ''#START'' = ''#START''"
    by code_simp
  have s1: "split ?l1 = [''1998'', ''01'', ''01'', ''00'', ''00'', ''00'', ''0'', ''3'', ''4'', ''0'',
      ''-400'', ''0'', ''0'', ''5'', ''100000'']"
    by code_simp
  have s2: "split ?l2 = [''1998'', ''01'', ''01'', ''00'', ''01'', ''00'', ''0'', ''3'', ''4'']"
    by code_simp
  have h4: "\<forall>l \<in> set [?l1, ?l2]. data_line_ok ?sp ?tf l"
    by (simp add: data_line_ok_def s1 s2)
  have len: "length [?l1, ?l2] = 2"
    by simp
  from loaded_fields_have_one_entry_per_data_line[where fs = ?fs and name = "''imf.dat''"
      and header = "[''IMF data'', ''second header line'']" and sentinel = "''#START''"
      and data = "[?l1, ?l2]" and strptime = ?sp and to_float = ?tf, OF h1 h2 h3 h4]
  show ?thesis by (simp only: len)
qed

lemma parse_parts_ignores_token_6:
  "parse_parts strptime to_float i (parts[6 := t]) self = parse_parts strptime to_float i parts self"
proof -
  have "take 6 (parts[6 := t]) = take 6 parts" by simp
  moreover have "drop 7 (parts[6 := t]) = drop 7 parts" by simp
  ultimately show ?thesis by (simp only: parse_parts_def)
qed

text \<open>
  Claim C6. On every data line of a well-formed file, the tokens from index 7 on are
  paired in order with \<open>bx\<close>, \<open>by\<close>, \<open>bz\<close>, \<open>vx\<close>, \<open>vy\<close>, \<open>vz\<close>, \<open>rho\<close>, \<open>temp\<close>: in
  row \<open>i\<close> of the loaded dataset, field number \<open>j\<close> holds the float of token \<open>7 + j\<close>
  when the line has that token, and the zero of \<open>np.zeros\<close> when the line is shorter
  (the load still succeeds). Token 6 is ignored: replacing it changes nothing in what
  the body of the loop does.
\<close>

theorem tokens_from_index_7_fill_the_fields_in_order:
  assumes "fs name = Some (header @ sentinel # data)"
    and "\<forall>l \<in> set header. strip l \<noteq> ''#START''"
    and "strip sentinel = ''#START''"
    and "\<forall>l \<in> set data. data_line_ok strptime to_float l"
  shows "keys = [''bx'', ''by'', ''bz'', ''vx'', ''vy'', ''vz'', ''rho'', ''temp''] \<and>
         (\<exists>obj. ImfData_init fs strptime to_float (PyStr name)
              = Some (None, obj, [OpenFile name, CloseFile name]) \<and>
            (\<forall>i < length data. \<forall>j < 8. \<exists>xs. items obj (keys ! j) = Some (Floats xs) \<and>
               i < length xs \<and>
               xs ! i = (if 7 + j < length (split (data ! i))
                         then the (to_float (split (data ! i) ! (7 + j))) else 0))) \<and>
         (\<forall>i parts t self.
            parse_parts strptime to_float i (parts[6 := t]) self
              = (parse_parts strptime to_float i parts self :: error option \<times> 'a ImfData))"
proof (intro conjI)
  show "keys = [''bx'', ''by'', ''bz'', ''vx'', ''vy'', ''vz'', ''rho'', ''temp'']"
    by (rule keys_def)
next
  from ImfData_init_success[where fs=fs and name=name and hs=header and s=sentinel and data=data
      and sp=strptime and tf=to_float, OF assms] obtain obj :: "'a ImfData" and os' where
    r: "ImfData_init fs strptime to_float (PyStr name) = Some (None, obj, [OpenFile name, CloseFile name])"
      "\<forall>j < 8. \<exists>xs'. items obj (keys ! j) = Some (Floats xs') \<and> length xs' = length data \<and>
              (\<forall>r < length data. xs' ! r =
                 (if 7 + j < length (split (data ! r))
                  then the (to_float (split (data ! r) ! (7 + j))) else 0))"
    by (elim exE conjE) (rule that; assumption)
  have "\<exists>xs. items obj (keys ! j) = Some (Floats xs) \<and> i < length xs \<and>
               xs ! i = (if 7 + j < length (split (data ! i))
                         then the (to_float (split (data ! i) ! (7 + j))) else 0)"
    if "i < length data" "j < 8" for i j
  proof -
    from r(2) that(2) obtain xs' where x: "items obj (keys ! j) = Some (Floats xs')"
      "length xs' = length data"
      "\<forall>r < length data. xs' ! r =
                 (if 7 + j < length (split (data ! r))
                  then the (to_float (split (data ! r) ! (7 + j))) else 0)"
      by blast
    show ?thesis
      using x that(1) by simp
  qed
  with r(1) show "\<exists>obj. ImfData_init fs strptime to_float (PyStr name)
              = Some (None, obj, [OpenFile name, CloseFile name]) \<and>
            (\<forall>i < length data. \<forall>j < 8. \<exists>xs. items obj (keys ! j) = Some (Floats xs) \<and>
               i < length xs \<and>
               xs ! i = (if 7 + j < length (split (data ! i))
                         then the (to_float (split (data ! i) ! (7 + j))) else 0))"
    by blast
next
  show "\<forall>i parts t self.
            parse_parts strptime to_float i (parts[6 := t]) self
              = (parse_parts strptime to_float i parts self :: error option \<times> 'a ImfData)"
    by (intro allI) (rule parse_parts_ignores_token_6)
qed

text \<open>
  A full data line of 15 tokens and a short one of 9 tokens: \<open>bx\<close> is read on both,
  \<open>vx\<close> and \<open>temp\<close> keep 0 on the short one.
\<close>

theorem tokens_from_index_7_fill_the_fields_in_order_witness:
  "\<exists>obj. ImfData_init
            [''imf.dat'' \<mapsto> [''IMF data'', ''#START'',
                ''1998 01 01 00 00 00 0 3 4 0 -400 0 0 5 100000'',
                ''1998 01 01 00 01 00 999 3 4'']]
            (map_of [(''1998 01 01 00 00 00'', 0::nat), (''1998 01 01 00 01 00'', 60)])
            (map_of [(''3'', 3), (''4'', 4), (''0'', 0), (''-400'', - 400), (''5'', 5),
                     (''100000'', 100000)])
            (PyStr ''imf.dat'')
          = Some (None, obj, [OpenFile ''imf.dat'', CloseFile ''imf.dat'']) \<and>
          (\<exists>xs. items obj ''bx'' = Some (Floats xs) \<and> xs ! 0 = 3 \<and> xs ! 1 = 3) \<and>
          (\<exists>xs. items obj ''vx'' = Some (Floats xs) \<and> xs ! 0 = - 400 \<and> xs ! 1 = 0) \<and>
          (\<exists>xs. items obj ''temp'' = Some (Floats xs) \<and> xs ! 0 = 100000 \<and> xs ! 1 = 0)"
proof -
  define l1 where "l1 = ''1998 01 01 00 00 00 0 3 4 0 -400 0 0 5 100000''"
  define l2 where "l2 = ''1998 01 01 00 01 00 999 3 4''"
  define fs where "fs = [''imf.dat'' \<mapsto> [''IMF data'', ''#START'', l1, l2]]"
  define sp where "sp = map_of [(''1998 01 01 00 00 00'', 0::nat), (''1998 01 01 00 01 00'', 60)]"
  define tf where "tf = map_of [(''3'', 3::real), (''4'', 4), (''0'', 0), (''-400'', - 400), (''5'', 5),
                     (''100000'', 100000)]"
  have h1: "fs ''imf.dat'' = Some ([''IMF data''] @ ''#START'' # [l1, l2])"
    by (simp add: fs_def)
  have h2: "\<forall>l \<in> set [''IMF data'']. strip l \<noteq> ''#START''"
    by code_simp
  have h3: "strip ''#START'' = ''#START''"
    by code_simp
  have s1: "split l1 = [''1998'', ''01'', ''01'', ''00'', ''00'', ''00'', ''0'', ''3'', ''4'', ''0'',
      ''-400'', ''0'', ''0'', ''5'', ''100000'']"
    unfolding l1_def by code_simp
  have s2: "split l2 = [''1998'', ''01'', ''01'', ''00'', ''01'', ''00'', ''999'', ''3'', ''4'']"
    unfolding l2_def by code_simp
  have h4: "\<forall>l \<in> set [l1, l2]. data_line_ok sp tf l"
    by (simp add: data_line_ok_def s1 s2 sp_def tf_def)
  have "\<exists>obj. ImfData_init fs sp tf (PyStr ''imf.dat'')
              = Some (None, obj, [OpenFile ''imf.dat'', CloseFile ''imf.dat'']) \<and>
            (\<forall>i < length [l1, l2]. \<forall>j < 8. \<exists>xs. items obj (keys ! j) = Some (Floats xs) \<and>
               i < length xs \<and>
               xs ! i = (if 7 + j < length (split ([l1, l2] ! i))
                         then the (tf (split ([l1, l2] ! i) ! (7 + j))) else 0))"
    using tokens_from_index_7_fill_the_fields_in_order[where fs = fs and name = "''imf.dat''"
      and header = "[''IMF data'']" and sentinel = "''#START''"
      and data = "[l1, l2]" and strptime = sp and to_float = tf, OF h1 h2 h3 h4]
    by (elim conjE)
  then obtain obj :: "nat ImfData" where
    r1: "ImfData_init fs sp tf (PyStr ''imf.dat'')
          = Some (None, obj, [OpenFile ''imf.dat'', CloseFile ''imf.dat''])"
    and r2: "\<forall>i < length [l1, l2]. \<forall>j < 8. \<exists>xs. items obj (keys ! j) = Some (Floats xs) \<and>
               i < length xs \<and>
               xs ! i = (if 7 + j < length (split ([l1, l2] ! i))
                         then the (tf (split ([l1, l2] ! i) ! (7 + j))) else 0)"
    by (elim exE conjE) (rule that; assumption)
  have cell: "\<exists>xs. items obj (keys ! j) = Some (Floats xs) \<and>
       xs ! 0 = (if 7 + j < length (split l1) then the (tf (split l1 ! (7 + j))) else 0) \<and>
       xs ! 1 = (if 7 + j < length (split l2) then the (tf (split l2 ! (7 + j))) else 0)"
    if j: "j < 8" for j
  proof -
    have "0 < length [l1, l2]" by simp
    with r2 j obtain xs where a: "items obj (keys ! j) = Some (Floats xs)"
      "xs ! 0 = (if 7 + j < length (split ([l1, l2] ! 0))
                         then the (tf (split ([l1, l2] ! 0) ! (7 + j))) else 0)"
      by blast
    have "1 < length [l1, l2]" by simp
    with r2 j obtain ys where b: "items obj (keys ! j) = Some (Floats ys)"
      "ys ! 1 = (if 7 + j < length (split ([l1, l2] ! 1))
                         then the (tf (split ([l1, l2] ! 1) ! (7 + j))) else 0)"
      by blast
    from a(1) b(1) have "ys = xs" by simp
    with a b show ?thesis by simp
  qed
  have bx: "\<exists>xs. items obj ''bx'' = Some (Floats xs) \<and> xs ! 0 = 3 \<and> xs ! 1 = 3"
    using cell[of 0] by (simp add: keys_def s1 s2 tf_def)
  have vx: "\<exists>xs. items obj ''vx'' = Some (Floats xs) \<and> xs ! 0 = - 400 \<and> xs ! 1 = 0"
    using cell[of 3] by (simp add: keys_def s1 s2 tf_def)
  have temp: "\<exists>xs. items obj ''temp'' = Some (Floats xs) \<and> xs ! 0 = 100000 \<and> xs ! 1 = 0"
    using cell[of 7] by (simp add: keys_def s1 s2 tf_def)
  from r1 bx vx temp have "\<exists>obj. ImfData_init fs sp tf (PyStr ''imf.dat'')
          = Some (None, obj, [OpenFile ''imf.dat'', CloseFile ''imf.dat'']) \<and>
          (\<exists>xs. items obj ''bx'' = Some (Floats xs) \<and> xs ! 0 = 3 \<and> xs ! 1 = 3) \<and>
          (\<exists>xs. items obj ''vx'' = Some (Floats xs) \<and> xs ! 0 = - 400 \<and> xs ! 1 = 0) \<and>
          (\<exists>xs. items obj ''temp'' = Some (Floats xs) \<and> xs ! 0 = 100000 \<and> xs ! 1 = 0)"
    by blast
  then show ?thesis
    unfolding fs_def sp_def tf_def l1_def l2_def .
qed

section \<open>Failures of the loader\<close>

text \<open>
  Claim C2. A file with no line that strips to \<open>#START\<close> should make the loader fail
  with a malformed-file error. The header loop of \<open>_read_data\<close> has no exit at the end of
  the file: on the file below, which has a header line and a data line and no sentinel,
  the constructor never returns (the model's \<open>None\<close>), whatever \<open>strptime\<close> and \<open>float\<close> do.
\<close>

theorem missing_sentinel_never_returns:
  "ImfData_init
     [''imf.dat'' \<mapsto> [''IMF data without a sentinel'',
                       ''1998 01 01 00 00 00 0 3 4 0 -400 0 0 5 100000'']]
     strptime to_float (PyStr ''imf.dat'') = None"
proof -
  have "\<forall>l \<in> set [''IMF data without a sentinel'',
                    ''1998 01 01 00 00 00 0 3 4 0 -400 0 0 5 100000'']. strip l \<noteq> ''#START''"
    by code_simp
  then show ?thesis
    by (intro read_data_no_sentinel[where c = "[''IMF data without a sentinel'',
                    ''1998 01 01 00 00 00 0 3 4 0 -400 0 0 5 100000'']"]) simp_all
qed











end
